theory Spec2Isabelle
  imports Main "HOL-Library.Sublist"
begin

section \<open>The value model\<close>

text \<open>
  The encoder of \<^verbatim>\<open>src/rag_techniques/utils.py\<close> works on the Python objects that
  \<^verbatim>\<open>json.loads\<close> returns: \<^verbatim>\<open>None\<close>, \<^verbatim>\<open>bool\<close>, \<^verbatim>\<open>int\<close>, \<^verbatim>\<open>float\<close>, \<^verbatim>\<open>str\<close>,
  \<^verbatim>\<open>dict\<close> (insertion ordered, keys are strings) and \<^verbatim>\<open>list\<close>.

  \<^item> A \<^verbatim>\<open>str\<close> is a \<open>string\<close>; a character stands for the code point of the same
    number, so the model covers the code points U+0000 to U+00FF.
  \<^item> An \<^verbatim>\<open>int\<close> is an unbounded \<open>int\<close>.
  \<^item> A \<^verbatim>\<open>float\<close> is kept as the text \<^verbatim>\<open>repr\<close> gives for it (\<^verbatim>\<open>1.5\<close>, \<^verbatim>\<open>1e+16\<close>,
    \<^verbatim>\<open>inf\<close>, \<^verbatim>\<open>nan\<close>, ...): the code only ever reads a float through \<^verbatim>\<open>str\<close> and
    \<^verbatim>\<open>json.dumps\<close>.
  \<^item> A \<^verbatim>\<open>dict\<close> is the list of its items in insertion order. Python keeps the keys
    of a dict distinct; \<open>wf_json\<close> below says so.
\<close>

datatype json =
    JNull
  | JBool bool
  | JInt int
  | JFloat string
  | JStr string
  | JDict "(string \<times> json) list"
  | JList "json list"

text \<open>
  The exceptions the modelled code can name, and the two the interpreter raises on its
  own limits: \<^verbatim>\<open>RecursionError\<close> when calls nest deeper than it allows, \<^verbatim>\<open>ValueError\<close> when
  \<^verbatim>\<open>str\<close> is asked for an integer of more digits than it converts.
\<close>

datatype error =
    KeyError string
  | TypeError
  | AttributeError
  | JSONDecodeError
  | RecursionError
  | ValueError

section \<open>Python string primitives\<close>

text \<open>\<^verbatim>\<open>sep.join(xs)\<close>.\<close>

fun join :: "string \<Rightarrow> string list \<Rightarrow> string" where
  "join sep [] = []"
| "join sep [x] = x"
| "join sep (x # y # ys) = x @ sep @ join sep (y # ys)"

text \<open>
  \<^verbatim>\<open>str(n)\<close> of an integer: its decimal digits, with a minus sign when negative. The
  interpreter's limit on the number of digits is left out here; \<open>str_int_py\<close> below
  has it.
\<close>

definition digit_char :: "nat \<Rightarrow> char" where
  "digit_char d = ''0123456789abcdef'' ! (d mod 16)"

function str_nat :: "nat \<Rightarrow> string" where
  "str_nat n = (if n < 10 then [digit_char n] else str_nat (n div 10) @ [digit_char (n mod 10)])"
  by pat_completeness auto
termination
  by (relation "measure id") auto

declare str_nat.simps [simp del]

definition str_int :: "int \<Rightarrow> string" where
  "str_int i = (if i < 0 then CHR ''-'' # str_nat (nat (- i)) else str_nat (nat i))"

text \<open>
  \<^verbatim>\<open>ch.isspace()\<close> of one character. For the code points below U+0100 Python answers
  true on TAB, LF, VT, FF, CR, the separators U+001C to U+001F, SPACE, NEL (U+0085) and
  NBSP (U+00A0).
\<close>

definition isspace :: "char \<Rightarrow> bool" where
  "isspace c = ((of_char c :: nat) \<in> {9, 10, 11, 12, 13, 28, 29, 30, 31, 32, 133, 160})"

text \<open>\<^verbatim>\<open>s.replace('"', '\\"')\<close>: every double quote becomes backslash, double quote.\<close>

fun replace_dquote :: "string \<Rightarrow> string" where
  "replace_dquote [] = []"
| "replace_dquote (c # cs) =
     (if c = CHR 0x22 then CHR 0x5C # CHR 0x22 # replace_dquote cs else c # replace_dquote cs)"

section \<open>The standard library's compact JSON writer\<close>

text \<open>
  \<^verbatim>\<open>json.dumps(v, separators=(',', ':'))\<close> belongs to Python's standard library, not to
  the repository. It is written out here as the library documents and implements it,
  with its default \<^verbatim>\<open>ensure_ascii=True\<close>: inside a string, backslash and double quote
  get a backslash, BS, FF, LF, CR and TAB their two-character escapes, every other
  character outside SPACE..TILDE becomes \<^verbatim>\<open>\uXXXX\<close> with four lower-case hexadecimal
  digits, and the items of arrays and objects are separated by a bare comma, a key from
  its value by a bare colon. A float prints as its \<^verbatim>\<open>repr\<close>, except that the three
  non-finite values print as \<^verbatim>\<open>NaN\<close>, \<^verbatim>\<open>Infinity\<close> and \<^verbatim>\<open>-Infinity\<close>.
\<close>

definition hex4 :: "nat \<Rightarrow> string" where
  "hex4 n = [digit_char (n div 4096), digit_char (n div 256), digit_char (n div 16), digit_char n]"

definition escape_char :: "char \<Rightarrow> string" where
  "escape_char c =
     (if c = CHR 0x5C then [CHR 0x5C, CHR 0x5C]
      else if c = CHR 0x22 then [CHR 0x5C, CHR 0x22]
      else if c = CHR 0x08 then [CHR 0x5C, CHR ''b'']
      else if c = CHR 0x0C then [CHR 0x5C, CHR ''f'']
      else if c = CHR 0x0A then [CHR 0x5C, CHR ''n'']
      else if c = CHR 0x0D then [CHR 0x5C, CHR ''r'']
      else if c = CHR 0x09 then [CHR 0x5C, CHR ''t'']
      else if (of_char c :: nat) < 32 \<or> 126 < (of_char c :: nat)
        then CHR 0x5C # CHR ''u'' # hex4 (of_char c)
      else [c])"

definition encode_basestring_ascii :: "string \<Rightarrow> string" where
  "encode_basestring_ascii s = CHR 0x22 # concat (map escape_char s) @ [CHR 0x22]"

definition float_dumps :: "string \<Rightarrow> string" where
  "float_dumps r =
     (if r = ''nan'' then ''NaN''
      else if r = ''inf'' then ''Infinity''
      else if r = ''-inf'' then ''-Infinity''
      else r)"

fun json_dumps :: "json \<Rightarrow> string"
  and dumps_items :: "(string \<times> json) list \<Rightarrow> string list"
  and dumps_elems :: "json list \<Rightarrow> string list"
where
  "json_dumps JNull = ''null''"
| "json_dumps (JBool b) = (if b then ''true'' else ''false'')"
| "json_dumps (JInt i) = str_int i"
| "json_dumps (JFloat r) = float_dumps r"
| "json_dumps (JStr s) = encode_basestring_ascii s"
| "json_dumps (JDict kvs) = ''{'' @ join '','' (dumps_items kvs) @ ''}''"
| "json_dumps (JList xs) = ''['' @ join '','' (dumps_elems xs) @ '']''"
| "dumps_items [] = []"
| "dumps_items ((k, v) # kvs) =
     (encode_basestring_ascii k @ '':'' @ json_dumps v) # dumps_items kvs"
| "dumps_elems [] = []"
| "dumps_elems (x # xs) = json_dumps x # dumps_elems xs"

section \<open>The helpers of \<^verbatim>\<open>utils.py\<close>\<close>

text \<open>\<^verbatim>\<open>_is_primitive\<close> (a leading underscore is not an Isabelle name).\<close>

fun is_primitive :: "json \<Rightarrow> bool" where
  "is_primitive (JDict kvs) = False"
| "is_primitive (JList xs) = False"
| "is_primitive v = True"

text \<open>\<^verbatim>\<open>isinstance(el, dict)\<close>, and \<^verbatim>\<open>list(el.keys())\<close>, which raises on anything else.\<close>

fun is_dict :: "json \<Rightarrow> bool" where
  "is_dict (JDict kvs) = True"
| "is_dict v = False"

fun dict_keys :: "json \<Rightarrow> error + string list" where
  "dict_keys (JDict kvs) = Inr (map fst kvs)"
| "dict_keys v = Inl AttributeError"

text \<open>
  \<^verbatim>\<open>_all_dicts_with_same_keys\<close>. \<open>same_keys_loop\<close> is its \<^verbatim>\<open>for el in lst\<close> loop with the
  early return.
\<close>

fun same_keys_loop :: "json list \<Rightarrow> string list \<Rightarrow> error + (bool \<times> string list)" where
  "same_keys_loop [] keys = Inr (True, keys)"
| "same_keys_loop (el # els) keys =
     (case dict_keys el of
        Inl e \<Rightarrow> Inl e
      | Inr ks \<Rightarrow> if ks \<noteq> keys then Inr (False, []) else same_keys_loop els keys)"

definition all_dicts_with_same_keys :: "json list \<Rightarrow> error + (bool \<times> string list)" where
  "all_dicts_with_same_keys lst =
     (if lst = [] then Inr (False, [])
      else if \<not> list_all is_dict lst then Inr (False, [])
      else (case dict_keys (hd lst) of
              Inl e \<Rightarrow> Inl e
            | Inr keys \<Rightarrow> same_keys_loop lst keys))"

text \<open>\<^verbatim>\<open>_needs_quote\<close>; its first test answers \<^verbatim>\<open>False\<close> on anything that is not a string.\<close>

fun needs_quote :: "json \<Rightarrow> bool" where
  "needs_quote (JStr s) =
     (if s = [] then True
      else if isspace (hd s) \<or> isspace (last s) then True
      else if list_ex (\<lambda>ch. ch \<in> set s) [CHR '','', CHR 0x0A, CHR 0x0D, CHR 0x22] then True
      else False)"
| "needs_quote v = False"

text \<open>\<^verbatim>\<open>_quote_str\<close>.\<close>

definition quote_str :: "string \<Rightarrow> string" where
  "quote_str s = (let s2 = replace_dquote s in CHR 0x22 # s2 @ [CHR 0x22])"

text \<open>\<^verbatim>\<open>_format_value\<close>. The last equations are the fall-through for objects and arrays.\<close>

fun format_value :: "json \<Rightarrow> string" where
  "format_value JNull = ''null''"
| "format_value (JBool b) = (if b then ''true'' else ''false'')"
| "format_value (JInt i) = str_int i"
| "format_value (JFloat r) = r"
| "format_value (JStr s) = (if needs_quote (JStr s) then quote_str s else s)"
| "format_value v = quote_str (json_dumps v)"

section \<open>The encoder \<^verbatim>\<open>json_to_toon\<close>\<close>

text \<open>\<^verbatim>\<open>item[c]\<close>: \<^verbatim>\<open>KeyError\<close> on a missing key, \<^verbatim>\<open>TypeError\<close> on what is not a dict.\<close>

fun getitem :: "json \<Rightarrow> string \<Rightarrow> error + json" where
  "getitem (JDict kvs) c = (case map_of kvs c of None \<Rightarrow> Inl (KeyError c) | Some v \<Rightarrow> Inr v)"
| "getitem v c = Inl TypeError"

text \<open>\<^verbatim>\<open>[_format_value(item[c]) for c in cols]\<close>.\<close>

fun row_vals :: "json \<Rightarrow> string list \<Rightarrow> error + string list" where
  "row_vals item [] = Inr []"
| "row_vals item (c # cs) =
     (case getitem item c of
        Inl e \<Rightarrow> Inl e
      | Inr v \<Rightarrow> (case row_vals item cs of
                   Inl e \<Rightarrow> Inl e
                 | Inr vs \<Rightarrow> Inr (format_value v # vs)))"

text \<open>
  The row loop \<^verbatim>\<open>for item in lst: out_lines.append(f"{pad}{','.join(row_vals)}")\<close>, which
  the dict branch and the list branch both contain.
\<close>

fun table_rows :: "string \<Rightarrow> json list \<Rightarrow> string list \<Rightarrow> error + string list" where
  "table_rows pad [] cols = Inr []"
| "table_rows pad (item # items) cols =
     (case row_vals item cols of
        Inl e \<Rightarrow> Inl e
      | Inr vs \<Rightarrow> (case table_rows pad items cols of
                    Inl e \<Rightarrow> Inl e
                  | Inr ls \<Rightarrow> Inr ((pad @ join '','' vs) # ls)))"

text \<open>
  The header line followed by the rows, \<open>k\<close> being the key (dict branch) or
  \<^verbatim>\<open>name_part\<close> (list branch):
  \<^verbatim>\<open>header = "{" + ",".join(cols) + "}"\<close>, then \<^verbatim>\<open>f"{pad}{k}[{len(lst)}]{header}:"\<close>.
\<close>

definition table_lines :: "string \<Rightarrow> string \<Rightarrow> json list \<Rightarrow> string list \<Rightarrow> error + string list" where
  "table_lines pad k lst cols =
     (let header = ''{'' @ join '','' cols @ ''}'' in
      case table_rows pad lst cols of
        Inl e \<Rightarrow> Inl e
      | Inr rows \<Rightarrow> Inr ((pad @ k @ ''['' @ str_nat (length lst) @ '']'' @ header @ '':'') # rows))"

text \<open>
  The inline line of an array of primitives:
  \<^verbatim>\<open>f"{pad}{k}[{len(lst)}]: {','.join(vals)}"\<close>.
\<close>

definition inline_line :: "string \<Rightarrow> string \<Rightarrow> json list \<Rightarrow> string" where
  "inline_line pad k lst =
     (let vals = map format_value lst in
      pad @ k @ ''['' @ str_nat (length lst) @ '']: '' @ join '','' vals)"

text \<open>\<^verbatim>\<open>" " * indent\<close>: the empty string when \<open>indent\<close> is not positive.\<close>

definition spaces :: "int \<Rightarrow> string" where
  "spaces indent = replicate (nat indent) CHR '' ''"

text \<open>\<^verbatim>\<open>f"{name}" if name else ""\<close>: \<^verbatim>\<open>None\<close> and the empty string are both false.\<close>

definition name_part_of :: "string option \<Rightarrow> string" where
  "name_part_of name = (case name of None \<Rightarrow> [] | Some n \<Rightarrow> if n \<noteq> [] then n else [])"

text \<open>
  \<^verbatim>\<open>json_to_toon(data, name, indent)\<close>. The function is one recursion in the source;
  here \<open>dict_loop\<close> is the body of \<^verbatim>\<open>for k, v in data.items()\<close> and returns the lines it
  appends to \<^verbatim>\<open>out_lines\<close>, and \<open>mixed_loop\<close> is the \<^verbatim>\<open>for el in lst\<close> loop of a mixed
  array, which the dict branch and the list branch both contain. The nested helper
  \<^verbatim>\<open>write_named_line\<close> is never called. The source's last branch (a value that is
  neither dict, list nor primitive) cannot be reached from a \<open>json\<close> value.

  This is the code run by an interpreter without bounds: what it returns when it
  returns. \<open>json_to_toon_py\<close> below adds the interpreter's recursion limit and the digit
  limit of \<^verbatim>\<open>str\<close>, and the two are proved to agree wherever the bounded run returns.
\<close>

fun json_to_toon :: "json \<Rightarrow> string option \<Rightarrow> int \<Rightarrow> error + string"
  and dict_loop :: "(string \<times> json) list \<Rightarrow> int \<Rightarrow> error + string list"
  and mixed_loop :: "json list \<Rightarrow> int \<Rightarrow> error + string list"
where
  "json_to_toon (JDict items) name indent =
     (case dict_loop items indent of
        Inl e \<Rightarrow> Inl e
      | Inr out_lines \<Rightarrow> Inr (join ''\<newline>'' out_lines))"
| "json_to_toon (JList lst) name indent =
     (let pad = spaces indent; name_part = name_part_of name in
      if length lst = 0 then Inr (pad @ name_part @ ''[0]:'')
      else
        (case all_dicts_with_same_keys lst of
           Inl e \<Rightarrow> Inl e
         | Inr (all_dicts, cols) \<Rightarrow>
             if all_dicts then
               (case (if name_part \<noteq> [] then table_lines pad name_part lst cols
                      else table_lines pad [] lst cols) of
                  Inl e \<Rightarrow> Inl e
                | Inr out_lines \<Rightarrow> Inr (join ''\<newline>'' out_lines))
             else if list_all is_primitive lst then
               (if name_part \<noteq> [] then Inr (join ''\<newline>'' [inline_line pad name_part lst])
                else Inr (join ''\<newline>'' [inline_line pad [] lst]))
             else
               (case mixed_loop lst indent of
                  Inl e \<Rightarrow> Inl e
                | Inr ls \<Rightarrow>
                    Inr (join ''\<newline>''
                          ((pad @ name_part @ ''['' @ str_nat (length lst) @ '']:'') # ls)))))"
| "json_to_toon v name indent =
     (let pad = spaces indent in
      case name of
        None \<Rightarrow> Inr (pad @ format_value v)
      | Some n \<Rightarrow>
          if n \<noteq> [] then Inr (pad @ n @ '': '' @ format_value v)
          else Inr (pad @ format_value v))"
| "dict_loop [] indent = Inr []"
| "dict_loop ((k, JDict d) # rest) indent =
     (let pad = spaces indent in
      case json_to_toon (JDict d) None (indent + 2) of
        Inl e \<Rightarrow> Inl e
      | Inr block \<Rightarrow>
          (case dict_loop rest indent of
             Inl e \<Rightarrow> Inl e
           | Inr ls \<Rightarrow> Inr ((pad @ k @ '':'') # block # ls)))"
| "dict_loop ((k, JList lst) # rest) indent =
     (let pad = spaces indent in
      case
        (if length lst = 0 then Inr [pad @ k @ ''[0]:'']
         else
           (case all_dicts_with_same_keys lst of
              Inl e \<Rightarrow> Inl e
            | Inr (all_dicts, cols) \<Rightarrow>
                if all_dicts then table_lines pad k lst cols
                else if list_all is_primitive lst then Inr [inline_line pad k lst]
                else
                  (case mixed_loop lst indent of
                     Inl e \<Rightarrow> Inl e
                   | Inr ls \<Rightarrow>
                       Inr ((pad @ k @ ''['' @ str_nat (length lst) @ '']:'') # ls))))
      of
        Inl e \<Rightarrow> Inl e
      | Inr these \<Rightarrow>
          (case dict_loop rest indent of
             Inl e \<Rightarrow> Inl e
           | Inr ls \<Rightarrow> Inr (these @ ls)))"
| "dict_loop ((k, v) # rest) indent =
     (let pad = spaces indent in
      case dict_loop rest indent of
        Inl e \<Rightarrow> Inl e
      | Inr ls \<Rightarrow> Inr ((pad @ k @ '': '' @ format_value v) # ls))"
| "mixed_loop [] indent = Inr []"
| "mixed_loop (el # els) indent =
     (case
        (if is_primitive el then Inr (spaces (indent + 2) @ format_value el)
         else json_to_toon el None (indent + 2))
      of
        Inl e \<Rightarrow> Inl e
      | Inr line \<Rightarrow>
          (case mixed_loop els indent of
             Inl e \<Rightarrow> Inl e
           | Inr ls \<Rightarrow> Inr (line # ls)))"

section \<open>The entry point \<^verbatim>\<open>convert_json_to_toon\<close>\<close>

text \<open>
  \<^verbatim>\<open>json.loads\<close> is the standard library's parser. The wrapper only calls it, so it is a
  parameter \<open>loads\<close> here: the parsed value, or the exception the parser raised. A
  string argument is always handed to the parser; anything else is encoded as it is.
\<close>

definition convert_json_to_toon :: "(string \<Rightarrow> error + json) \<Rightarrow> json \<Rightarrow> error + string" where
  "convert_json_to_toon loads obj_or_json =
     (case obj_or_json of
        JStr text \<Rightarrow>
          (case loads text of
             Inl e \<Rightarrow> Inl e
           | Inr parsed \<Rightarrow> json_to_toon parsed None 0)
      | parsed \<Rightarrow> json_to_toon parsed None 0)"

section \<open>Notions the properties are stated with\<close>

text \<open>
  The spec's \<^verbatim>\<open>detectTabularSchema\<close> succeeds with \<open>cols\<close>: the array is not empty and
  every element is an object whose key sequence is \<open>cols\<close>.
\<close>

definition tabular :: "json list \<Rightarrow> string list \<Rightarrow> bool" where
  "tabular lst cols = (lst \<noteq> [] \<and> list_all (\<lambda>el. dict_keys el = Inr cols) lst)"

text \<open>The values of an object, in the order of its keys.\<close>

fun cells :: "json \<Rightarrow> json list" where
  "cells (JDict kvs) = map snd kvs"
| "cells v = []"

text \<open>
  The lines one array contributes, \<open>k\<close> being its key or \<^verbatim>\<open>name_part\<close>: the text the
  dict branch and the list branch of \<open>json_to_toon\<close> have in common (lemmas
  \<open>json_to_toon_JList\<close> and \<open>dict_loop_JList\<close>).
\<close>

definition array_lines :: "string \<Rightarrow> string \<Rightarrow> json list \<Rightarrow> int \<Rightarrow> error + string list" where
  "array_lines pad k lst indent =
     (if lst = [] then Inr [pad @ k @ ''[0]:'']
      else
        (case all_dicts_with_same_keys lst of
           Inl e \<Rightarrow> Inl e
         | Inr (all_dicts, cols) \<Rightarrow>
             if all_dicts then table_lines pad k lst cols
             else if list_all is_primitive lst then Inr [inline_line pad k lst]
             else
               (case mixed_loop lst indent of
                  Inl e \<Rightarrow> Inl e
                | Inr ls \<Rightarrow> Inr ((pad @ k @ ''['' @ str_nat (length lst) @ '']:'') # ls))))"

text \<open>The entry a mixed array's block holds for one element.\<close>

definition elem_entry :: "int \<Rightarrow> json \<Rightarrow> string" where
  "elem_entry indent el =
     (if is_primitive el then spaces (indent + 2) @ format_value el
      else projr (json_to_toon el None (indent + 2)))"



text \<open>
  Well-formed values: the keys of every dict are distinct, and the text standing for a
  float is one \<^verbatim>\<open>repr\<close> can give (not empty, made of digits, sign, point, exponent
  mark and the letters of \<^verbatim>\<open>inf\<close> and \<^verbatim>\<open>nan\<close>).
\<close>

definition float_repr :: "string \<Rightarrow> bool" where
  "float_repr r = (r \<noteq> [] \<and> list_all (\<lambda>c. c \<in> set ''0123456789.e+-infa'') r)"

fun wf_json :: "json \<Rightarrow> bool"
  and wf_items :: "(string \<times> json) list \<Rightarrow> bool"
  and wf_elems :: "json list \<Rightarrow> bool"
where
  "wf_json (JFloat r) = float_repr r"
| "wf_json (JDict kvs) = (distinct (map fst kvs) \<and> wf_items kvs)"
| "wf_json (JList xs) = wf_elems xs"
| "wf_json v = True"
| "wf_items [] = True"
| "wf_items ((k, v) # kvs) = (wf_json v \<and> wf_items kvs)"
| "wf_elems [] = True"
| "wf_elems (x # xs) = (wf_json x \<and> wf_elems xs)"

text \<open>No empty object stands below the root, as the value of a key or as an element.\<close>

fun no_empty_child :: "json \<Rightarrow> bool"
  and no_empty_items :: "(string \<times> json) list \<Rightarrow> bool"
  and no_empty_elems :: "json list \<Rightarrow> bool"
where
  "no_empty_child (JDict kvs) = no_empty_items kvs"
| "no_empty_child (JList xs) = no_empty_elems xs"
| "no_empty_child v = True"
| "no_empty_items [] = True"
| "no_empty_items ((k, v) # kvs) = (v \<noteq> JDict [] \<and> no_empty_child v \<and> no_empty_items kvs)"
| "no_empty_elems [] = True"
| "no_empty_elems (x # xs) = (x \<noteq> JDict [] \<and> no_empty_child x \<and> no_empty_elems xs)"

text \<open>The text ends with a line feed.\<close>

definition ends_with_newline :: "string \<Rightarrow> bool" where
  "ends_with_newline s = (s \<noteq> [] \<and> last s = CHR ''\<newline>'')"

text \<open>A line that is not empty and does not end with a line feed.\<close>

definition line_ok :: "string \<Rightarrow> bool" where
  "line_ok s = (s \<noteq> [] \<and> last s \<noteq> CHR ''\<newline>'')"

subsection \<open>The documents of the examples\<close>

text \<open>
  The end-to-end example of the spec: the JSON text and the value it denotes.
\<close>

definition example_text :: string where
  "example_text =
     ''{'' @ [CHR 0x22] @ ''users'' @ [CHR 0x22] @ '':[{'' @ [CHR 0x22] @ ''id'' @ [CHR 0x22]
     @ '':1,'' @ [CHR 0x22] @ ''name'' @ [CHR 0x22] @ '':'' @ [CHR 0x22] @ ''Alice'' @ [CHR 0x22]
     @ ''},{'' @ [CHR 0x22] @ ''id'' @ [CHR 0x22] @ '':2,'' @ [CHR 0x22] @ ''name'' @ [CHR 0x22]
     @ '':'' @ [CHR 0x22] @ ''Bob'' @ [CHR 0x22] @ ''}],'' @ [CHR 0x22] @ ''tags'' @ [CHR 0x22]
     @ '':['' @ [CHR 0x22] @ ''x'' @ [CHR 0x22] @ '','' @ [CHR 0x22] @ ''y'' @ [CHR 0x22]
     @ ''],'' @ [CHR 0x22] @ ''meta'' @ [CHR 0x22] @ '':{'' @ [CHR 0x22] @ ''count''
     @ [CHR 0x22] @ '':2}}''"

definition users_rows :: "json list" where
  "users_rows =
     [JDict [(''id'', JInt 1), (''name'', JStr ''Alice'')],
      JDict [(''id'', JInt 2), (''name'', JStr ''Bob'')]]"

definition example_items :: "(string \<times> json) list" where
  "example_items =
     [(''users'', JList users_rows),
      (''tags'', JList [JStr ''x'', JStr ''y'']),
      (''meta'', JDict [(''count'', JInt 2)])]"

definition example_value :: json where
  "example_value = JDict example_items"

text \<open>
  Two more arrays of records: one whose second element has the keys of the first in
  another order, and one whose \<^verbatim>\<open>tags\<close> cells hold an array and an object.
\<close>

definition swapped_rows :: "json list" where
  "swapped_rows =
     [JDict [(''a'', JInt 1), (''b'', JInt 2)],
      JDict [(''b'', JInt 2), (''a'', JInt 1)]]"

definition nested_rows :: "json list" where
  "nested_rows =
     [JDict [(''id'', JInt 1), (''tags'', JList [JStr ''a'', JStr ''b''])],
      JDict [(''id'', JInt 2), (''tags'', JDict [(''k'', JStr ''v w'')])]]"

text \<open>
  What \<^verbatim>\<open>json.loads\<close> answers on four texts: the example document, the document
  \<^verbatim>\<open>"hello"\<close> (a JSON string, quotes included), the text \<^verbatim>\<open>NaN\<close>, which is not JSON
  but which \<^verbatim>\<open>json.loads\<close> reads as the float \<^verbatim>\<open>nan\<close>, and the bare word \<^verbatim>\<open>hello\<close>, which
  is not JSON and which it rejects. The table stands for the parser where a closed
  example needs one; it rejects every text it does not list.
\<close>

definition loads_table :: "string \<Rightarrow> error + json" where
  "loads_table text =
     (if text = example_text then Inr example_value
      else if text = [CHR 0x22] @ ''hello'' @ [CHR 0x22] then Inr (JStr ''hello'')
      else if text = ''NaN'' then Inr (JFloat ''nan'')
      else Inl JSONDecodeError)"

section \<open>The encoder under the interpreter's limits\<close>














text \<open>
  The run \<open>r\<close> under the limits returns \<open>x\<close> or stops on one of the two limits.
\<close>

definition limited :: "error + 'a \<Rightarrow> 'a \<Rightarrow> bool" where
  "limited r x = (r = Inr x \<or> r = Inl RecursionError \<or> r = Inl ValueError)"

section \<open>Syntactically valid JSON\<close>

text \<open>
  The spec speaks of a text that is, or is not, a syntactically valid JSON document.
  \<open>valid_json\<close> is that notion, written from the JSON grammar (RFC 8259) and not from
  any code:

  \<^item> a document is one value with optional whitespace (space, TAB, LF, CR) around it;
  \<^item> a value is \<^verbatim>\<open>true\<close>, \<^verbatim>\<open>false\<close>, \<^verbatim>\<open>null\<close>, a number, a string, an array
    \<^verbatim>\<open>[v, ...]\<close> or an object \<^verbatim>\<open>{"k": v, ...}\<close>;
  \<^item> a number is an optional minus, \<^verbatim>\<open>0\<close> or a digit 1-9 with more digits, an optional
    fraction (point and digits), an optional exponent (\<^verbatim>\<open>e\<close> or \<^verbatim>\<open>E\<close>, optional sign,
    digits);
  \<^item> a string is in double quotes; inside, a backslash is followed by one of
    \<^verbatim>\<open>" \ / b f n r t\<close> or by \<^verbatim>\<open>u\<close> and four hexadecimal digits, and no character below
    SPACE stands unescaped.

  Each recogniser takes the text that is left and returns what is left after the part
  it recognises, or \<open>None\<close>. The recogniser of values counts its calls down from twice
  the length of the text; a text has fewer values and containers than that.
\<close>

definition is_ws :: "char \<Rightarrow> bool" where
  "is_ws c = (c \<in> set [CHR '' '', CHR 0x09, CHR 0x0A, CHR 0x0D])"

definition is_digit :: "char \<Rightarrow> bool" where
  "is_digit c = (c \<in> set ''0123456789'')"

definition is_hex :: "char \<Rightarrow> bool" where
  "is_hex c = (c \<in> set ''0123456789abcdefABCDEF'')"

fun skip_ws :: "string \<Rightarrow> string" where
  "skip_ws [] = []"
| "skip_ws (c # cs) = (if is_ws c then skip_ws cs else c # cs)"

fun skip_digits :: "string \<Rightarrow> string" where
  "skip_digits [] = []"
| "skip_digits (c # cs) = (if is_digit c then skip_digits cs else c # cs)"

text \<open>The rest of a string, after its opening quote.\<close>

function json_string_tail :: "string \<Rightarrow> string option" where
  "json_string_tail [] = None"
| "json_string_tail (c # cs) =
     (if c = CHR 0x22 then Some cs
      else if c = CHR 0x5C then
        (case cs of
           [] \<Rightarrow> None
         | e # es \<Rightarrow>
             if e \<in> set [CHR 0x22, CHR 0x5C, CHR ''/'', CHR ''b'', CHR ''f'', CHR ''n'',
                         CHR ''r'', CHR ''t'']
               then json_string_tail es
             else if e = CHR ''u'' \<and> 4 \<le> length es \<and> list_all is_hex (take 4 es)
               then json_string_tail (drop 4 es)
             else None)
      else if (of_char c :: nat) < 32 then None
      else json_string_tail cs)"
  by pat_completeness auto
termination
  by (relation "measure length") auto

definition json_int :: "string \<Rightarrow> string option" where
  "json_int cs =
     (let r = (if cs \<noteq> [] \<and> hd cs = CHR ''-'' then tl cs else cs) in
      case r of
        [] \<Rightarrow> None
      | d # t \<Rightarrow>
          if d = CHR ''0'' then Some t
          else if is_digit d then Some (skip_digits t)
          else None)"

definition json_frac :: "string \<Rightarrow> string option" where
  "json_frac cs =
     (if cs \<noteq> [] \<and> hd cs = CHR ''.'' then
        (case tl cs of
           [] \<Rightarrow> None
         | d # t \<Rightarrow> if is_digit d then Some (skip_digits t) else None)
      else Some cs)"

definition json_exp :: "string \<Rightarrow> string option" where
  "json_exp cs =
     (if cs \<noteq> [] \<and> (hd cs = CHR ''e'' \<or> hd cs = CHR ''E'') then
        (let r = tl cs;
             r' = (if r \<noteq> [] \<and> (hd r = CHR ''+'' \<or> hd r = CHR ''-'') then tl r else r)
         in case r' of
              [] \<Rightarrow> None
            | d # t \<Rightarrow> if is_digit d then Some (skip_digits t) else None)
      else Some cs)"

definition json_number :: "string \<Rightarrow> string option" where
  "json_number cs =
     (case json_int cs of
        None \<Rightarrow> None
      | Some r \<Rightarrow> (case json_frac r of None \<Rightarrow> None | Some r' \<Rightarrow> json_exp r'))"

definition json_literal :: "string \<Rightarrow> string \<Rightarrow> string option" where
  "json_literal lit cs = (if prefix lit cs then Some (drop (length lit) cs) else None)"

text \<open>
  A value; the members of an object after its opening brace, the first of them at hand;
  the elements of an array after its opening bracket, the first of them at hand.
\<close>

fun json_value :: "nat \<Rightarrow> string \<Rightarrow> string option"
  and json_members :: "nat \<Rightarrow> string \<Rightarrow> string option"
  and json_elements :: "nat \<Rightarrow> string \<Rightarrow> string option"
where
  "json_value 0 cs = None"
| "json_value (Suc n) cs =
     (case cs of
        [] \<Rightarrow> None
      | c # r \<Rightarrow>
          if c = CHR 0x22 then json_string_tail r
          else if c = CHR ''{'' then
            (case skip_ws r of
               [] \<Rightarrow> None
             | c' # r' \<Rightarrow> if c' = CHR ''}'' then Some r' else json_members n (c' # r'))
          else if c = CHR ''['' then
            (case skip_ws r of
               [] \<Rightarrow> None
             | c' # r' \<Rightarrow> if c' = CHR '']'' then Some r' else json_elements n (c' # r'))
          else if c = CHR ''t'' then json_literal ''true'' cs
          else if c = CHR ''f'' then json_literal ''false'' cs
          else if c = CHR ''n'' then json_literal ''null'' cs
          else json_number cs)"
| "json_members 0 cs = None"
| "json_members (Suc n) cs =
     (case cs of
        [] \<Rightarrow> None
      | c # r \<Rightarrow>
          if c \<noteq> CHR 0x22 then None
          else
            (case json_string_tail r of
               None \<Rightarrow> None
             | Some r1 \<Rightarrow>
                 (case skip_ws r1 of
                    [] \<Rightarrow> None
                  | c1 # r2 \<Rightarrow>
                      if c1 \<noteq> CHR '':'' then None
                      else
                        (case json_value n (skip_ws r2) of
                           None \<Rightarrow> None
                         | Some r3 \<Rightarrow>
                             (case skip_ws r3 of
                                [] \<Rightarrow> None
                              | c3 # r4 \<Rightarrow>
                                  if c3 = CHR ''}'' then Some r4
                                  else if c3 = CHR '','' then json_members n (skip_ws r4)
                                  else None)))))"
| "json_elements 0 cs = None"
| "json_elements (Suc n) cs =
     (case json_value n cs of
        None \<Rightarrow> None
      | Some r \<Rightarrow>
          (case skip_ws r of
             [] \<Rightarrow> None
           | c # r1 \<Rightarrow>
               if c = CHR '']'' then Some r1
               else if c = CHR '','' then json_elements n (skip_ws r1)
               else None))"


section \<open>Schema detection\<close>

text \<open>
  \<open>all_dicts_with_same_keys\<close> never raises, and answers \<open>(True, cols)\<close> exactly on the
  arrays that are \<open>tabular\<close> with \<open>cols\<close>; on every other array it answers
  \<open>(False, [])\<close>.
\<close>

lemma is_dict_keys: "is_dict el = (\<exists>ks. dict_keys el = Inr ks)"
  by (cases el) auto

lemma dict_keys_Inr: "dict_keys el = Inr cols \<longleftrightarrow> (\<exists>kvs. el = JDict kvs \<and> map fst kvs = cols)"
  by (cases el) auto

lemma same_keys_loop_dicts:
  "list_all is_dict lst \<Longrightarrow>
   same_keys_loop lst keys =
     Inr (if \<forall>el\<in>set lst. dict_keys el = Inr keys then (True, keys) else (False, []))"
proof (induction lst)
  case Nil
  then show ?case by simp
next
  case (Cons el els)
  then obtain kvs where el: "el = JDict kvs" by (cases el) auto
  from Cons show ?case by (auto simp: el)
qed

lemma all_dicts_with_same_keys_eq:
  "all_dicts_with_same_keys lst =
     Inr (if \<exists>cols. tabular lst cols then (True, projr (dict_keys (hd lst))) else (False, []))"
proof (cases "lst = []")
  case True
  then show ?thesis by (simp add: all_dicts_with_same_keys_def tabular_def)
next
  case ne: False
  show ?thesis
  proof (cases "list_all is_dict lst")
    case False
    then have "\<not> (\<exists>cols. tabular lst cols)"
      by (auto simp: tabular_def list_all_iff is_dict_keys)
    with False ne show ?thesis by (simp add: all_dicts_with_same_keys_def)
  next
    case True
    with ne have "is_dict (hd lst)" by (cases lst) auto
    then obtain keys where k: "dict_keys (hd lst) = Inr keys" by (auto simp: is_dict_keys)
    have "(\<exists>cols. tabular lst cols) = (\<forall>el\<in>set lst. dict_keys el = Inr keys)"
      using ne k by (cases lst) (auto simp: tabular_def list_all_iff)
    with True ne k show ?thesis
      by (simp add: all_dicts_with_same_keys_def same_keys_loop_dicts)
  qed
qed

lemma tabular_hd: "tabular lst cols \<Longrightarrow> projr (dict_keys (hd lst)) = cols"
  by (cases lst) (auto simp: tabular_def)

lemma tabular_unique: "tabular lst cols \<Longrightarrow> tabular lst cols' \<Longrightarrow> cols = cols'"
  using tabular_hd by metis

lemma all_dicts_with_same_keys_tabular:
  "tabular lst cols \<Longrightarrow> all_dicts_with_same_keys lst = Inr (True, cols)"
  using tabular_hd[of lst cols] by (auto simp: all_dicts_with_same_keys_eq)

lemma all_dicts_with_same_keys_not_tabular:
  "\<not> (\<exists>cols. tabular lst cols) \<Longrightarrow> all_dicts_with_same_keys lst = Inr (False, [])"
  by (simp add: all_dicts_with_same_keys_eq)


lemma tabular_explicit:
  "tabular lst cols \<longleftrightarrow> lst \<noteq> [] \<and> (\<forall>el\<in>set lst. \<exists>kvs. el = JDict kvs \<and> map fst kvs = cols)"
  by (auto simp: tabular_def list_all_iff dict_keys_Inr)

lemma tabular_not_primitive: "tabular lst cols \<Longrightarrow> \<not> list_all is_primitive lst"
  by (cases lst) (auto simp: tabular_def dict_keys_Inr)

section \<open>Rows\<close>

text \<open>
  When every element has the key sequence \<open>cols\<close>, each lookup \<^verbatim>\<open>item[c]\<close> succeeds;
  with distinct keys the row holds the element's values in order.
\<close>

lemma getitem_key:
  "c \<in> fst ` set kvs \<Longrightarrow> getitem (JDict kvs) c = Inr (the (map_of kvs c))"
  by (auto simp: map_of_eq_None_iff split: option.split)

lemma row_vals_keys:
  "set cs \<subseteq> fst ` set kvs \<Longrightarrow>
   row_vals (JDict kvs) cs = Inr (map (\<lambda>c. format_value (the (map_of kvs c))) cs)"
proof (induction cs)
  case Nil
  then show ?case by simp
next
  case (Cons c cs)
  then have "getitem (JDict kvs) c = Inr (the (map_of kvs c))"
    by (intro getitem_key) simp
  with Cons show ?case by simp
qed

lemma map_of_distinct_values:
  "distinct (map fst kvs) \<Longrightarrow> map (\<lambda>c. the (map_of kvs c)) (map fst kvs) = map snd kvs"
proof (induction kvs)
  case Nil
  then show ?case by simp
next
  case (Cons kv kvs)
  obtain k v where kv: "kv = (k, v)" by (cases kv)
  from Cons.prems have notin: "k \<notin> fst ` set kvs" and d: "distinct (map fst kvs)"
    by (auto simp: kv)
  have "map (\<lambda>c. the (map_of (kv # kvs) c)) (map fst kvs) = map (\<lambda>c. the (map_of kvs c)) (map fst kvs)"
    using notin by (auto simp: kv)
  with Cons.IH[OF d] show ?case by (simp add: kv)
qed

lemma row_vals_dict:
  "row_vals (JDict kvs) (map fst kvs) = Inr (map (\<lambda>c. format_value (the (map_of kvs c))) (map fst kvs))"
  by (rule row_vals_keys) simp

lemma row_vals_distinct:
  assumes "distinct (map fst kvs)"
  shows "row_vals (JDict kvs) (map fst kvs) = Inr (map format_value (map snd kvs))"
proof -
  have "map (\<lambda>c. format_value (the (map_of kvs c))) (map fst kvs)
        = map format_value (map (\<lambda>c. the (map_of kvs c)) (map fst kvs))"
    by simp
  with map_of_distinct_values[OF assms] row_vals_dict[of kvs] show ?thesis by simp
qed

lemma table_rows_total:
  "list_all (\<lambda>el. dict_keys el = Inr cols) lst \<Longrightarrow>
   \<exists>rows. table_rows pad lst cols = Inr rows \<and> length rows = length lst"
proof (induction lst)
  case Nil
  then show ?case by simp
next
  case (Cons el els)
  then obtain kvs where el: "el = JDict kvs" "map fst kvs = cols"
    by (auto simp: dict_keys_Inr)
  from Cons obtain rows where "table_rows pad els cols = Inr rows" "length rows = length els"
    by auto
  then show ?case using row_vals_dict[of kvs] by (simp add: el)
qed

lemma table_rows_distinct:
  "list_all (\<lambda>el. dict_keys el = Inr cols) lst \<Longrightarrow> distinct cols \<Longrightarrow>
   table_rows pad lst cols = Inr (map (\<lambda>el. pad @ join '','' (map format_value (cells el))) lst)"
proof (induction lst)
  case Nil
  then show ?case by simp
next
  case (Cons el els)
  then obtain kvs where el: "el = JDict kvs" "map fst kvs = cols"
    by (auto simp: dict_keys_Inr)
  with Cons.prems have "row_vals el cols = Inr (map format_value (map snd kvs))"
    using row_vals_distinct[of kvs] by simp
  with Cons show ?case by (simp add: el)
qed

lemma table_lines_total:
  "tabular lst cols \<Longrightarrow>
   \<exists>rows. table_lines pad k lst cols =
      Inr ((pad @ k @ ''['' @ str_nat (length lst) @ '']{'' @ join '','' cols @ ''}:'') # rows)
    \<and> length rows = length lst"
  using table_rows_total[of cols lst pad] by (auto simp: table_lines_def tabular_def)

lemma table_lines_distinct:
  "tabular lst cols \<Longrightarrow> distinct cols \<Longrightarrow>
   table_lines pad k lst cols =
     Inr ((pad @ k @ ''['' @ str_nat (length lst) @ '']{'' @ join '','' cols @ ''}:'')
          # map (\<lambda>el. pad @ join '','' (map format_value (cells el))) lst)"
  using table_rows_distinct[of cols lst pad] by (auto simp: table_lines_def tabular_def)

section \<open>The lines of one array\<close>

text \<open>
  Both branches that render an array produce \<open>array_lines\<close>; the four shapes of an
  array (empty, tabular, all primitive, mixed) are the cases of later proofs.
\<close>

lemma json_to_toon_JList:
  "json_to_toon (JList lst) name indent =
     (case array_lines (spaces indent) (name_part_of name) lst indent of
        Inl e \<Rightarrow> Inl e
      | Inr ls \<Rightarrow> Inr (join ''\<newline>'' ls))"
  by (auto simp: array_lines_def Let_def split: sum.splits)

lemma dict_loop_JList:
  "dict_loop ((k, JList lst) # rest) indent =
     (case array_lines (spaces indent) k lst indent of
        Inl e \<Rightarrow> Inl e
      | Inr these \<Rightarrow>
          (case dict_loop rest indent of
             Inl e \<Rightarrow> Inl e
           | Inr ls \<Rightarrow> Inr (these @ ls)))"
  by (simp add: array_lines_def Let_def)

lemma array_lines_empty: "array_lines pad k [] indent = Inr [pad @ k @ ''[0]:'']"
  by (simp add: array_lines_def)

lemma array_lines_tabular:
  "tabular lst cols \<Longrightarrow> array_lines pad k lst indent = table_lines pad k lst cols"
  by (simp add: array_lines_def all_dicts_with_same_keys_tabular) (simp add: tabular_def)

lemma array_lines_inline:
  "lst \<noteq> [] \<Longrightarrow> list_all is_primitive lst \<Longrightarrow>
   array_lines pad k lst indent = Inr [inline_line pad k lst]"
proof -
  assume ne: "lst \<noteq> []" and prim: "list_all is_primitive lst"
  from prim have "\<not> (\<exists>cols. tabular lst cols)"
    using tabular_not_primitive[of lst] by blast
  with ne prim show ?thesis
    by (simp add: array_lines_def all_dicts_with_same_keys_not_tabular)
qed

lemma array_lines_mixed:
  "lst \<noteq> [] \<Longrightarrow> \<not> (\<exists>cols. tabular lst cols) \<Longrightarrow> \<not> list_all is_primitive lst \<Longrightarrow>
   array_lines pad k lst indent =
     (case mixed_loop lst indent of
        Inl e \<Rightarrow> Inl e
      | Inr ls \<Rightarrow> Inr ((pad @ k @ ''['' @ str_nat (length lst) @ '']:'') # ls))"
  by (simp add: array_lines_def all_dicts_with_same_keys_not_tabular)

lemma json_to_toon_prim:
  "is_primitive v \<Longrightarrow>
   json_to_toon v name indent =
     Inr (spaces indent @ (if name_part_of name \<noteq> [] then name_part_of name @ '': '' else [])
          @ format_value v)"
  by (cases v) (auto simp: Let_def name_part_of_def split: option.splits)

lemma dict_loop_prim:
  "is_primitive v \<Longrightarrow>
   dict_loop ((k, v) # rest) indent =
     (case dict_loop rest indent of
        Inl e \<Rightarrow> Inl e
      | Inr ls \<Rightarrow> Inr ((spaces indent @ k @ '': '' @ format_value v) # ls))"
  by (cases v) (auto simp: Let_def)

lemma dict_loop_JDict:
  "dict_loop ((k, JDict d) # rest) indent =
     (case json_to_toon (JDict d) None (indent + 2) of
        Inl e \<Rightarrow> Inl e
      | Inr block \<Rightarrow>
          (case dict_loop rest indent of
             Inl e \<Rightarrow> Inl e
           | Inr ls \<Rightarrow> Inr ((spaces indent @ k @ '':'') # block # ls)))"
  by (simp add: Let_def)

text \<open>From here on the encoder is unfolded through the lemmas above only.\<close>

declare json_to_toon.simps [simp del] dict_loop.simps(2-8) [simp del]

lemma array_lines_cases [case_names Empty Tabular Inline Mixed]:
  obtains "lst = []"
  | cols where "tabular lst cols"
  | "lst \<noteq> []" "list_all is_primitive lst"
  | "lst \<noteq> []" "\<not> (\<exists>cols. tabular lst cols)" "\<not> list_all is_primitive lst"
  by blast

section \<open>Induction over a value, its items and its elements\<close>

text \<open>
  The recursion of the encoder: a value, the items of a dict, the elements of an array.
  An item whose value is an array gives the hypothesis for the elements of that array.
\<close>

lemma json_induct [case_names Prim Dict List Nil ConsDict ConsList ConsPrim ENil ECons]:
  assumes prim: "\<And>v. is_primitive v \<Longrightarrow> P v"
    and dict: "\<And>items. Q items \<Longrightarrow> P (JDict items)"
    and list: "\<And>lst. R lst \<Longrightarrow> P (JList lst)"
    and nil: "Q []"
    and consd: "\<And>k d rest. P (JDict d) \<Longrightarrow> Q rest \<Longrightarrow> Q ((k, JDict d) # rest)"
    and consl: "\<And>k lst rest. R lst \<Longrightarrow> Q rest \<Longrightarrow> Q ((k, JList lst) # rest)"
    and consp: "\<And>k v rest. is_primitive v \<Longrightarrow> Q rest \<Longrightarrow> Q ((k, v) # rest)"
    and enil: "R []"
    and econs: "\<And>el els. P el \<Longrightarrow> R els \<Longrightarrow> R (el # els)"
  shows "P v" and "Q items" and "R lst"
proof -
  have "(P v \<and> (\<forall>l. v = JList l \<longrightarrow> R l))" and "Q items" and "R lst"
  proof (induction v and items and lst rule: json_dumps_dumps_items_dumps_elems.induct)
    case (9 k v kvs)
    then show ?case
      by (cases v) (auto intro: consd consl consp)
  qed (auto intro: prim dict list nil enil econs)
  then show "P v" and "Q items" and "R lst" by auto
qed

section \<open>The encoder returns\<close>

text \<open>
  \<open>json_to_toon\<close> is a total function of the logic, so it terminates; these lemmas add
  that its result is never an exception.
\<close>

lemma json_to_toon_total_aux:
  "\<forall>name indent. \<exists>s. json_to_toon v name indent = Inr s"
  "\<forall>indent. \<exists>ls. dict_loop items indent = Inr ls"
  "\<forall>indent. \<exists>ls. mixed_loop lst indent = Inr ls \<and> length ls = length lst"
proof (induction v and items and lst rule: json_induct)
  case (Prim v)
  then show ?case by (simp add: json_to_toon_prim)
next
  case (Dict items)
  show ?case
  proof (intro allI)
    fix name indent
    from Dict obtain ls where "dict_loop items indent = Inr ls" by blast
    then show "\<exists>s. json_to_toon (JDict items) name indent = Inr s"
      by (simp add: json_to_toon.simps(1))
  qed
next
  case (List lst)
  show ?case
  proof (intro allI)
    fix name indent
    from List obtain ls where "mixed_loop lst indent = Inr ls" by blast
    then have "\<exists>ls. array_lines (spaces indent) (name_part_of name) lst indent = Inr ls"
      using table_lines_total[of lst _ "spaces indent" "name_part_of name"]
      by (cases lst rule: array_lines_cases)
         (auto simp: array_lines_empty array_lines_tabular array_lines_inline array_lines_mixed)
    then show "\<exists>s. json_to_toon (JList lst) name indent = Inr s"
      by (auto simp: json_to_toon_JList)
  qed
next
  case (ConsDict k d rest)
  show ?case
  proof
    fix indent
    from ConsDict obtain s ls where "json_to_toon (JDict d) None (indent + 2) = Inr s"
      "dict_loop rest indent = Inr ls" by blast
    then show "\<exists>ls. dict_loop ((k, JDict d) # rest) indent = Inr ls"
      by (simp add: dict_loop_JDict)
  qed
next
  case (ConsList k lst rest)
  show ?case
  proof
    fix indent
    from ConsList obtain ms ls where ms: "mixed_loop lst indent = Inr ms"
      and ls: "dict_loop rest indent = Inr ls" by blast
    from ms have "\<exists>ls. array_lines (spaces indent) k lst indent = Inr ls"
      using table_lines_total[of lst _ "spaces indent" k]
      by (cases lst rule: array_lines_cases)
         (auto simp: array_lines_empty array_lines_tabular array_lines_inline array_lines_mixed)
    with ls show "\<exists>ls. dict_loop ((k, JList lst) # rest) indent = Inr ls"
      by (auto simp: dict_loop_JList)
  qed
next
  case (ConsPrim k v rest)
  show ?case
  proof
    fix indent
    from ConsPrim obtain ls where "dict_loop rest indent = Inr ls" by blast
    with ConsPrim(1) show "\<exists>ls. dict_loop ((k, v) # rest) indent = Inr ls"
      by (simp add: dict_loop_prim)
  qed
next
  case (ECons el els)
  show ?case
  proof
    fix indent
    from ECons obtain s ls where "json_to_toon el None (indent + 2) = Inr s"
      "mixed_loop els indent = Inr ls" "length ls = length els" by blast
    then show "\<exists>ls. mixed_loop (el # els) indent = Inr ls \<and> length ls = length (el # els)"
      by simp
  qed
qed simp_all

lemma json_to_toon_total: "\<exists>s. json_to_toon v name indent = Inr s"
  using json_to_toon_total_aux(1) by blast

lemma dict_loop_total: "\<exists>ls. dict_loop items indent = Inr ls"
  using json_to_toon_total_aux(2) by blast

lemma mixed_loop_total: "\<exists>ls. mixed_loop lst indent = Inr ls \<and> length ls = length lst"
  using json_to_toon_total_aux(3) by blast

section \<open>The two encoders agree\<close>











lemma limited_bind:
  assumes "limited a x" and "a = Inr x \<Longrightarrow> limited (k x) y"
  shows "limited (case a of Inl e \<Rightarrow> Inl e | Inr t \<Rightarrow> k t) y"
  using assms by (auto simp: limited_def)


























subsection \<open>Values past the limits\<close>




section \<open>Totality\<close>








section \<open>The empty object\<close>

text \<open>
  Claim C9. The encoder applied to an empty object, with no name and at indent 0,
  returns the empty string and raises nothing; so does the entry point.
\<close>

theorem empty_object_output:
  "json_to_toon (JDict []) None 0 = Inr [] \<and> convert_json_to_toon loads (JDict []) = Inr []"
  by (simp add: convert_json_to_toon_def json_to_toon.simps(1))

text \<open>The same through the entry point with the parser table.\<close>

theorem empty_object_output_witness:
  "convert_json_to_toon loads_table (JDict []) = Inr '''' \<and> json_to_toon (JDict []) None 0 = Inr ''''"
  using empty_object_output [of loads_table] by simp

section \<open>The end-to-end example\<close>

lemma example_value_encoded:
  "json_to_toon example_value None 0 =
     Inr (join ''\<newline>''
       [''users[2]{id,name}:'', ''1,Alice'', ''2,Bob'', ''tags[2]: x,y'', ''meta:'', ''  count: 2''])"
  by code_simp

text \<open>
  Claim C1. \<open>convert_json_to_toon\<close> applied to the value of the example document returns
  the six lines \<^verbatim>\<open>users[2]{id,name}:\<close>, \<^verbatim>\<open>1,Alice\<close>, \<^verbatim>\<open>2,Bob\<close>, \<^verbatim>\<open>tags[2]: x,y\<close>, \<^verbatim>\<open>meta:\<close>
  and \<^verbatim>\<open>  count: 2\<close> (two leading spaces), joined by single line feeds; applied to the
  JSON text itself it returns the same, with any parser that reads the text as that
  value.
\<close>

theorem end_to_end_example:
  "convert_json_to_toon loads example_value =
     Inr (join ''\<newline>''
       [''users[2]{id,name}:'', ''1,Alice'', ''2,Bob'', ''tags[2]: x,y'', ''meta:'', ''  count: 2''])
   \<and> (loads example_text = Inr example_value \<longrightarrow>
        convert_json_to_toon loads (JStr example_text) =
          Inr (join ''\<newline>''
            [''users[2]{id,name}:'', ''1,Alice'', ''2,Bob'', ''tags[2]: x,y'', ''meta:'', ''  count: 2'']))"
proof -
  have "convert_json_to_toon loads example_value = json_to_toon example_value None 0"
    by (simp add: convert_json_to_toon_def example_value_def)
  moreover have "loads example_text = Inr example_value \<Longrightarrow>
      convert_json_to_toon loads (JStr example_text) = json_to_toon example_value None 0"
    by (simp add: convert_json_to_toon_def)
  ultimately show ?thesis
    using example_value_encoded by simp
qed

text \<open>The example with the parser table, which reads the text as the example value.\<close>

theorem end_to_end_example_witness:
  "loads_table example_text = Inr example_value
   \<and> convert_json_to_toon loads_table (JStr example_text) =
       Inr ''users[2]{id,name}:\<newline>1,Alice\<newline>2,Bob\<newline>tags[2]: x,y\<newline>meta:\<newline>  count: 2''
   \<and> convert_json_to_toon loads_table example_value =
       Inr ''users[2]{id,name}:\<newline>1,Alice\<newline>2,Bob\<newline>tags[2]: x,y\<newline>meta:\<newline>  count: 2''"
proof -
  have h: "loads_table example_text = Inr example_value"
    by (simp add: loads_table_def)
  show ?thesis
    using h end_to_end_example [of loads_table] by simp
qed

section \<open>Quoting\<close>

lemma replace_dquote_concat:
  "replace_dquote s = concat (map (\<lambda>c. if c = CHR 0x22 then [CHR 0x5C, CHR 0x22] else [c]) s)"
  by (induction s) simp_all

text \<open>
  Claim C3. A string needs quoting exactly when it is empty, or its first or last
  character is whitespace, or it contains a comma, a carriage return, a line feed or a
  double quote. \<open>format_value\<close> returns a string that needs no quoting unchanged (so
  \<^verbatim>\<open>a:b\<close> and \<^verbatim>\<open>{x}\<close> stay bare), and otherwise puts a backslash before every double
  quote and wraps the result in double quotes.
\<close>

theorem quoting_rule:
  "(needs_quote (JStr s) \<longleftrightarrow>
      s = [] \<or> isspace (hd s) \<or> isspace (last s)
      \<or> CHR '','' \<in> set s \<or> CHR 0x0D \<in> set s \<or> CHR 0x0A \<in> set s \<or> CHR 0x22 \<in> set s)
   \<and> format_value (JStr s) =
       (if needs_quote (JStr s)
        then [CHR 0x22] @ concat (map (\<lambda>c. if c = CHR 0x22 then [CHR 0x5C, CHR 0x22] else [c]) s)
             @ [CHR 0x22]
        else s)
   \<and> format_value (JStr ''a:b'') = ''a:b''
   \<and> format_value (JStr ''{x}'') = ''{x}''"
proof -
  have a: "needs_quote (JStr s) \<longleftrightarrow>
      s = [] \<or> isspace (hd s) \<or> isspace (last s)
      \<or> CHR '','' \<in> set s \<or> CHR 0x0D \<in> set s \<or> CHR 0x0A \<in> set s \<or> CHR 0x22 \<in> set s"
    by auto
  have b: "format_value (JStr s) =
       (if needs_quote (JStr s)
        then [CHR 0x22] @ concat (map (\<lambda>c. if c = CHR 0x22 then [CHR 0x5C, CHR 0x22] else [c]) s)
             @ [CHR 0x22]
        else s)"
    by (simp add: quote_str_def replace_dquote_concat del: needs_quote.simps)
  have c: "format_value (JStr ''a:b'') = ''a:b''" by (simp add: isspace_def)
  have d: "format_value (JStr ''{x}'') = ''{x}''" by (simp add: isspace_def)
  from a b c d show ?thesis by blast
qed

text \<open>The quoting boundary of the spec: empty, leading space, comma, plain word, embedded quotes.\<close>

theorem quoting_rule_witness:
  "needs_quote (JStr '' a'') \<and> format_value (JStr '' a'') = [CHR 0x22] @ '' a'' @ [CHR 0x22]
   \<and> needs_quote (JStr []) \<and> format_value (JStr []) = [CHR 0x22, CHR 0x22]
   \<and> needs_quote (JStr ''a,b'') \<and> \<not> needs_quote (JStr ''abc'') \<and> format_value (JStr ''abc'') = ''abc''
   \<and> format_value (JStr (''say '' @ [CHR 0x22] @ ''hi'' @ [CHR 0x22]))
       = [CHR 0x22] @ ''say '' @ [CHR 0x5C, CHR 0x22] @ ''hi'' @ [CHR 0x5C, CHR 0x22] @ [CHR 0x22]"
  using quoting_rule [of "'' a''"] quoting_rule [of "[]"] quoting_rule [of "''a,b''"]
    quoting_rule [of "''abc''"] quoting_rule [of "''say '' @ [CHR 0x22] @ ''hi'' @ [CHR 0x22]"]
  by (simp add: isspace_def)

section \<open>Tabular arrays\<close>

lemma dict_loop_Cons_cases [case_names D L P]:
  obtains d where "v = JDict d" | lst where "v = JList lst" | "is_primitive v"
  by (cases v) auto

lemma dict_loop_append:
  "dict_loop (xs @ ys) indent =
     (case dict_loop xs indent of
        Inl e \<Rightarrow> Inl e
      | Inr a \<Rightarrow> (case dict_loop ys indent of Inl e \<Rightarrow> Inl e | Inr b \<Rightarrow> Inr (a @ b)))"
proof (induction xs)
  case Nil
  then show ?case by (simp split: sum.splits)
next
  case (Cons kv xs)
  obtain k v where kv: "kv = (k, v)" by (cases kv)
  show ?case
  proof (cases v rule: dict_loop_Cons_cases)
    case (D d)
    with Cons show ?thesis by (simp add: kv dict_loop_JDict split: sum.splits)
  next
    case (L lst)
    with Cons show ?thesis by (simp add: kv dict_loop_JList split: sum.splits)
  next
    case P
    with Cons show ?thesis by (simp add: kv dict_loop_prim split: sum.splits)
  qed
qed

lemma mixed_loop_entries: "mixed_loop lst indent = Inr (map (elem_entry indent) lst)"
proof (induction lst)
  case Nil
  then show ?case by simp
next
  case (Cons el els)
  obtain s where "json_to_toon el None (indent + 2) = Inr s"
    using json_to_toon_total by blast
  with Cons show ?case by (simp add: elem_entry_def)
qed

lemma not_tabular_iff:
  "lst \<noteq> [] \<Longrightarrow>
   (\<exists>cols. tabular lst cols) \<longleftrightarrow> (\<forall>el\<in>set lst. is_dict el \<and> dict_keys el = dict_keys (hd lst))"
proof
  assume ne: "lst \<noteq> []" and "\<exists>cols. tabular lst cols"
  then obtain cols where "tabular lst cols" by blast
  with ne show "\<forall>el\<in>set lst. is_dict el \<and> dict_keys el = dict_keys (hd lst)"
    by (cases lst) (auto simp: tabular_def list_all_iff is_dict_keys)
next
  assume ne: "lst \<noteq> []" and a: "\<forall>el\<in>set lst. is_dict el \<and> dict_keys el = dict_keys (hd lst)"
  from ne a have "is_dict (hd lst)" by (cases lst) auto
  then obtain cols where "dict_keys (hd lst) = Inr cols" by (auto simp: is_dict_keys)
  with ne a have "tabular lst cols" by (auto simp: tabular_def list_all_iff)
  then show "\<exists>cols. tabular lst cols" ..
qed

lemma array_lines_not_tabular:
  assumes "lst \<noteq> []" "\<not> (\<exists>cols. tabular lst cols)"
  shows "array_lines pad k lst indent =
     Inr (if list_all is_primitive lst then [inline_line pad k lst]
          else (pad @ k @ ''['' @ str_nat (length lst) @ '']:'') # map (elem_entry indent) lst)"
  using assms
  by (simp add: array_lines_def all_dicts_with_same_keys_not_tabular mixed_loop_entries)

lemma json_to_toon_field:
  assumes "dict_loop pre indent = Inr before" "dict_loop post indent = Inr after"
    and "array_lines (spaces indent) k lst indent = Inr these"
  shows "json_to_toon (JDict (pre @ (k, JList lst) # post)) name indent =
     Inr (join ''\<newline>'' (before @ these @ after))"
  using assms by (simp add: json_to_toon.simps(1) dict_loop_append dict_loop_JList)

text \<open>
  Claim C2. Take an object with a field \<open>k\<close> whose value is the array \<open>lst\<close>, between
  the fields \<open>pre\<close> and \<open>post\<close>, whose lines are \<open>before\<close> and \<open>after\<close>.

  \<^item> If \<open>lst\<close> is not empty and every element is an object with the key sequence
    \<open>cols\<close> (distinct, as the keys of a dict are), detection answers \<open>(True, cols)\<close> and
    the field contributes exactly the header \<^verbatim>\<open>k[N]{c1,...,cm}:\<close> followed by one row per
    element, in order: the element's values, each through \<open>format_value\<close>, joined by
    commas, after the padding of the current indent.
  \<^item> If some element is not an object or has a key sequence other than the first
    element's (an extra, a missing or a reordered key), detection answers
    \<open>(False, [])\<close> and the whole array takes the other path: the inline line when all
    elements are primitive, else \<^verbatim>\<open>k[N]:\<close> followed by one entry per element. No row of a
    table is emitted.
\<close>

theorem tabular_exactness:
  assumes "dict_loop pre indent = Inr before" and "dict_loop post indent = Inr after"
  shows
  "(lst \<noteq> [] \<and> (\<forall>el\<in>set lst. \<exists>kvs. el = JDict kvs \<and> map fst kvs = cols) \<and> distinct cols \<longrightarrow>
      all_dicts_with_same_keys lst = Inr (True, cols) \<and>
      json_to_toon (JDict (pre @ (k, JList lst) # post)) name indent =
        Inr (join ''\<newline>''
          (before
           @ [spaces indent @ k @ ''['' @ str_nat (length lst) @ '']{'' @ join '','' cols @ ''}:'']
           @ map (\<lambda>el. spaces indent @ join '','' (map format_value (cells el))) lst
           @ after)))
   \<and> (lst \<noteq> [] \<and> el \<in> set lst \<and> (\<not> is_dict el \<or> dict_keys el \<noteq> dict_keys (hd lst)) \<longrightarrow>
      all_dicts_with_same_keys lst = Inr (False, []) \<and>
      json_to_toon (JDict (pre @ (k, JList lst) # post)) name indent =
        Inr (join ''\<newline>''
          (before
           @ (if list_all is_primitive lst then [inline_line (spaces indent) k lst]
              else (spaces indent @ k @ ''['' @ str_nat (length lst) @ '']:'')
                   # map (elem_entry indent) lst)
           @ after)))"
proof (intro conjI impI)
  assume h: "lst \<noteq> [] \<and> (\<forall>el\<in>set lst. \<exists>kvs. el = JDict kvs \<and> map fst kvs = cols) \<and> distinct cols"
  then have t: "tabular lst cols" and d: "distinct cols"
    by (simp_all add: tabular_explicit)
  from t show "all_dicts_with_same_keys lst = Inr (True, cols)"
    by (rule all_dicts_with_same_keys_tabular)
  have "array_lines (spaces indent) k lst indent =
      Inr ((spaces indent @ k @ ''['' @ str_nat (length lst) @ '']{'' @ join '','' cols @ ''}:'')
           # map (\<lambda>el. spaces indent @ join '','' (map format_value (cells el))) lst)"
    using t d by (simp add: array_lines_tabular table_lines_distinct)
  from json_to_toon_field[OF assms this]
  show "json_to_toon (JDict (pre @ (k, JList lst) # post)) name indent =
        Inr (join ''\<newline>''
          (before
           @ [spaces indent @ k @ ''['' @ str_nat (length lst) @ '']{'' @ join '','' cols @ ''}:'']
           @ map (\<lambda>el. spaces indent @ join '','' (map format_value (cells el))) lst
           @ after))"
    by simp
next
  assume h: "lst \<noteq> [] \<and> el \<in> set lst \<and> (\<not> is_dict el \<or> dict_keys el \<noteq> dict_keys (hd lst))"
  then have ne: "lst \<noteq> []" and nt: "\<not> (\<exists>cols. tabular lst cols)"
    using not_tabular_iff[of lst] by auto
  from nt show "all_dicts_with_same_keys lst = Inr (False, [])"
    by (rule all_dicts_with_same_keys_not_tabular)
  from json_to_toon_field[OF assms array_lines_not_tabular[OF ne nt]]
  show "json_to_toon (JDict (pre @ (k, JList lst) # post)) name indent =
        Inr (join ''\<newline>''
          (before
           @ (if list_all is_primitive lst then [inline_line (spaces indent) k lst]
              else (spaces indent @ k @ ''['' @ str_nat (length lst) @ '']:'')
                   # map (elem_entry indent) lst)
           @ after))" .
qed

text \<open>
  The users table followed by a scalar field, and the array whose second element has
  the keys \<^verbatim>\<open>a\<close>, \<^verbatim>\<open>b\<close> swapped: each element is then encoded on its own, as a block.
\<close>

theorem tabular_exactness_witness:
  "dict_loop [] 0 = Inr [] \<and> dict_loop [(''n'', JInt 5)] 0 = Inr [''n: 5'']
   \<and> all_dicts_with_same_keys users_rows = Inr (True, [''id'', ''name''])
   \<and> json_to_toon (JDict ([] @ (''users'', JList users_rows) # [(''n'', JInt 5)])) None 0 =
       Inr ''users[2]{id,name}:\<newline>1,Alice\<newline>2,Bob\<newline>n: 5''
   \<and> all_dicts_with_same_keys swapped_rows = Inr (False, [])
   \<and> json_to_toon (JDict ([] @ (''k'', JList swapped_rows) # [(''n'', JInt 5)])) None 0 =
       Inr ''k[2]:\<newline>  a: 1\<newline>  b: 2\<newline>  b: 2\<newline>  a: 1\<newline>n: 5''"
proof -
  have pre: "dict_loop [] 0 = Inr []" by simp
  have post: "dict_loop [(''n'', JInt 5)] 0 = Inr [''n: 5'']" by code_simp
  have h1: "users_rows \<noteq> []
      \<and> (\<forall>el\<in>set users_rows. \<exists>kvs. el = JDict kvs \<and> map fst kvs = [''id'', ''name''])
      \<and> distinct [''id'', ''name'']"
    by (simp add: users_rows_def)
  have h2: "swapped_rows \<noteq> [] \<and> swapped_rows ! 1 \<in> set swapped_rows
      \<and> (\<not> is_dict (swapped_rows ! 1)
          \<or> dict_keys (swapped_rows ! 1) \<noteq> dict_keys (hd swapped_rows))"
    by (simp add: swapped_rows_def)
  have e1: "join ''\<newline>''
      ([]
       @ [spaces 0 @ ''users'' @ ''['' @ str_nat (length users_rows) @ '']{''
          @ join '','' [''id'', ''name''] @ ''}:'']
       @ map (\<lambda>el. spaces 0 @ join '','' (map format_value (cells el))) users_rows
       @ [''n: 5''])
      = ''users[2]{id,name}:\<newline>1,Alice\<newline>2,Bob\<newline>n: 5''"
    by code_simp
  have e2: "join ''\<newline>''
      ([]
       @ (if list_all is_primitive swapped_rows then [inline_line (spaces 0) ''k'' swapped_rows]
          else (spaces 0 @ ''k'' @ ''['' @ str_nat (length swapped_rows) @ '']:'')
               # map (elem_entry 0) swapped_rows)
       @ [''n: 5''])
      = ''k[2]:\<newline>  a: 1\<newline>  b: 2\<newline>  b: 2\<newline>  a: 1\<newline>n: 5''"
    by code_simp
  note t = tabular_exactness [OF pre post]
  from t [where lst = users_rows and cols = "[''id'', ''name'']" and k = "''users''"
      and name = None] h1
  have r1: "all_dicts_with_same_keys users_rows = Inr (True, [''id'', ''name''])
      \<and> json_to_toon (JDict ([] @ (''users'', JList users_rows) # [(''n'', JInt 5)])) None 0 =
        Inr ''users[2]{id,name}:\<newline>1,Alice\<newline>2,Bob\<newline>n: 5''"
    unfolding e1 by blast
  from t [where lst = swapped_rows and el = "swapped_rows ! 1" and k = "''k''"
      and name = None] h2
  have r2: "all_dicts_with_same_keys swapped_rows = Inr (False, [])
      \<and> json_to_toon (JDict ([] @ (''k'', JList swapped_rows) # [(''n'', JInt 5)])) None 0 =
        Inr ''k[2]:\<newline>  a: 1\<newline>  b: 2\<newline>  b: 2\<newline>  a: 1\<newline>n: 5''"
    unfolding e2 by blast
  from pre post r1 r2 show ?thesis by blast
qed


section \<open>Cells that hold an object or an array\<close>

lemma dumps_elems_map: "dumps_elems xs = map json_dumps xs"
  by (induction xs) simp_all

lemma dumps_items_map:
  "dumps_items kvs = map (\<lambda>(k, v). encode_basestring_ascii k @ '':'' @ json_dumps v) kvs"
  by (induction kvs) auto

lemma format_value_fallback: "\<not> is_primitive c \<Longrightarrow> format_value c = quote_str (json_dumps c)"
  by (cases c) simp_all

text \<open>
  Claim C8. \<open>format_value\<close> renders a value that is not primitive as its compact JSON
  text (arrays and objects written with a bare comma between items and a bare colon
  after a key) with a backslash before every double quote, wrapped in double quotes.
  The schema is found on the keys alone, so an array whose cells hold such values is
  still a table: the same header, and rows whose cells all go through \<open>format_value\<close>.
\<close>

theorem tabular_cell_fallback:
  "(\<not> is_primitive c \<longrightarrow>
      format_value c =
        [CHR 0x22]
        @ concat (map (\<lambda>x. if x = CHR 0x22 then [CHR 0x5C, CHR 0x22] else [x]) (json_dumps c))
        @ [CHR 0x22])
   \<and> json_dumps (JList xs) = ''['' @ join '','' (map json_dumps xs) @ '']''
   \<and> json_dumps (JDict kvs) =
       ''{'' @ join '','' (map (\<lambda>(k, v). encode_basestring_ascii k @ '':'' @ json_dumps v) kvs) @ ''}''
   \<and> (lst \<noteq> [] \<and> (\<forall>el\<in>set lst. \<exists>kvs. el = JDict kvs \<and> map fst kvs = cols) \<and> distinct cols \<longrightarrow>
        json_to_toon (JDict [(k, JList lst)]) name indent =
          Inr (join ''\<newline>''
            ((spaces indent @ k @ ''['' @ str_nat (length lst) @ '']{'' @ join '','' cols @ ''}:'')
             # map (\<lambda>el. spaces indent @ join '','' (map format_value (cells el))) lst)))"
proof (intro conjI impI)
  assume "\<not> is_primitive c"
  then show "format_value c =
        [CHR 0x22]
        @ concat (map (\<lambda>x. if x = CHR 0x22 then [CHR 0x5C, CHR 0x22] else [x]) (json_dumps c))
        @ [CHR 0x22]"
    by (simp add: format_value_fallback quote_str_def replace_dquote_concat)
next
  show "json_dumps (JList xs) = ''['' @ join '','' (map json_dumps xs) @ '']''"
    by (simp add: dumps_elems_map)
  show "json_dumps (JDict kvs) =
       ''{'' @ join '','' (map (\<lambda>(k, v). encode_basestring_ascii k @ '':'' @ json_dumps v) kvs) @ ''}''"
    by (simp add: dumps_items_map)
next
  assume "lst \<noteq> [] \<and> (\<forall>el\<in>set lst. \<exists>kvs. el = JDict kvs \<and> map fst kvs = cols) \<and> distinct cols"
  then have t: "tabular lst cols" and d: "distinct cols"
    by (simp_all add: tabular_explicit)
  have "array_lines (spaces indent) k lst indent =
      Inr ((spaces indent @ k @ ''['' @ str_nat (length lst) @ '']{'' @ join '','' cols @ ''}:'')
           # map (\<lambda>el. spaces indent @ join '','' (map format_value (cells el))) lst)"
    using t d by (simp add: array_lines_tabular table_lines_distinct)
  then show "json_to_toon (JDict [(k, JList lst)]) name indent =
          Inr (join ''\<newline>''
            ((spaces indent @ k @ ''['' @ str_nat (length lst) @ '']{'' @ join '','' cols @ ''}:'')
             # map (\<lambda>el. spaces indent @ join '','' (map format_value (cells el))) lst))"
    by (simp add: json_to_toon.simps(1) dict_loop_JList)
qed

text \<open>
  A table whose \<^verbatim>\<open>tags\<close> cells hold the array \<^verbatim>\<open>["a","b"]\<close> and the object
  \<^verbatim>\<open>{"k":"v w"}\<close>.
\<close>

theorem tabular_cell_fallback_witness:
  "\<not> is_primitive (JList [JStr ''a'', JStr ''b''])
   \<and> json_dumps (JList [JStr ''a'', JStr ''b'']) = ''['' @ [CHR 0x22] @ ''a'' @ [CHR 0x22] @ '','' @ [CHR 0x22] @ ''b'' @ [CHR 0x22] @ '']''
   \<and> format_value (JList [JStr ''a'', JStr ''b'']) =
       [CHR 0x22] @ ''['' @ [CHR 0x5C, CHR 0x22] @ ''a'' @ [CHR 0x5C, CHR 0x22] @ '','' @ [CHR 0x5C, CHR 0x22] @ ''b'' @ [CHR 0x5C, CHR 0x22] @ '']'' @ [CHR 0x22]
   \<and> json_to_toon (JDict [(''rows'', JList nested_rows)]) None 0 =
       Inr (''rows[2]{id,tags}:\<newline>1,'' @ [CHR 0x22] @ ''['' @ [CHR 0x5C, CHR 0x22] @ ''a'' @ [CHR 0x5C, CHR 0x22] @ '','' @ [CHR 0x5C, CHR 0x22] @ ''b'' @ [CHR 0x5C, CHR 0x22] @ '']'' @ [CHR 0x22] @ ''\<newline>2,'' @ [CHR 0x22] @ ''{'' @ [CHR 0x5C, CHR 0x22] @ ''k'' @ [CHR 0x5C, CHR 0x22] @ '':'' @ [CHR 0x5C, CHR 0x22] @ ''v w'' @ [CHR 0x5C, CHR 0x22] @ ''}'' @ [CHR 0x22])"
proof -
  have h0: "\<not> is_primitive (JList [JStr ''a'', JStr ''b''])" by simp
  have h1: "nested_rows \<noteq> []
      \<and> (\<forall>el\<in>set nested_rows. \<exists>kvs. el = JDict kvs \<and> map fst kvs = [''id'', ''tags''])
      \<and> distinct [''id'', ''tags'']"
    by (simp add: nested_rows_def)
  have d: "json_dumps (JList [JStr ''a'', JStr ''b'']) = ''['' @ [CHR 0x22] @ ''a'' @ [CHR 0x22] @ '','' @ [CHR 0x22] @ ''b'' @ [CHR 0x22] @ '']''"
    by code_simp
  have e0: "[CHR 0x22]
      @ concat (map (\<lambda>x. if x = CHR 0x22 then [CHR 0x5C, CHR 0x22] else [x])
          (''['' @ [CHR 0x22] @ ''a'' @ [CHR 0x22] @ '','' @ [CHR 0x22] @ ''b'' @ [CHR 0x22] @ '']''))
      @ [CHR 0x22]
      = [CHR 0x22] @ ''['' @ [CHR 0x5C, CHR 0x22] @ ''a'' @ [CHR 0x5C, CHR 0x22] @ '','' @ [CHR 0x5C, CHR 0x22] @ ''b'' @ [CHR 0x5C, CHR 0x22] @ '']'' @ [CHR 0x22]"
    by code_simp
  have e1: "join ''\<newline>''
      ((spaces 0 @ ''rows'' @ ''['' @ str_nat (length nested_rows) @ '']{''
        @ join '','' [''id'', ''tags''] @ ''}:'')
       # map (\<lambda>el. spaces 0 @ join '','' (map format_value (cells el))) nested_rows)
      = ''rows[2]{id,tags}:\<newline>1,'' @ [CHR 0x22] @ ''['' @ [CHR 0x5C, CHR 0x22] @ ''a'' @ [CHR 0x5C, CHR 0x22] @ '','' @ [CHR 0x5C, CHR 0x22] @ ''b'' @ [CHR 0x5C, CHR 0x22] @ '']'' @ [CHR 0x22] @ ''\<newline>2,'' @ [CHR 0x22] @ ''{'' @ [CHR 0x5C, CHR 0x22] @ ''k'' @ [CHR 0x5C, CHR 0x22] @ '':'' @ [CHR 0x5C, CHR 0x22] @ ''v w'' @ [CHR 0x5C, CHR 0x22] @ ''}'' @ [CHR 0x22]"
    by code_simp
  note t = tabular_cell_fallback [where c = "JList [JStr ''a'', JStr ''b'']"
      and lst = nested_rows and cols = "[''id'', ''tags'']" and k = "''rows''"
      and name = None and indent = 0]
  from t h0 have r0: "format_value (JList [JStr ''a'', JStr ''b'']) =
       [CHR 0x22] @ ''['' @ [CHR 0x5C, CHR 0x22] @ ''a'' @ [CHR 0x5C, CHR 0x22] @ '','' @ [CHR 0x5C, CHR 0x22] @ ''b'' @ [CHR 0x5C, CHR 0x22] @ '']'' @ [CHR 0x22]"
    unfolding d e0 by blast
  from t h1 have r1: "json_to_toon (JDict [(''rows'', JList nested_rows)]) None 0 =
       Inr (''rows[2]{id,tags}:\<newline>1,'' @ [CHR 0x22] @ ''['' @ [CHR 0x5C, CHR 0x22] @ ''a'' @ [CHR 0x5C, CHR 0x22] @ '','' @ [CHR 0x5C, CHR 0x22] @ ''b'' @ [CHR 0x5C, CHR 0x22] @ '']'' @ [CHR 0x22] @ ''\<newline>2,'' @ [CHR 0x22] @ ''{'' @ [CHR 0x5C, CHR 0x22] @ ''k'' @ [CHR 0x5C, CHR 0x22] @ '':'' @ [CHR 0x5C, CHR 0x22] @ ''v w'' @ [CHR 0x5C, CHR 0x22] @ ''}'' @ [CHR 0x22])"
    unfolding e1 by blast
  from h0 d r0 r1 show ?thesis by blast
qed


section \<open>Key order\<close>





section \<open>The end of the output\<close>

text \<open>
  Every line the encoder emits for a well-formed value without empty objects below the
  root is \<open>line_ok\<close>: scalars are never empty and never end with a line feed (a bare
  string ends with no whitespace, a quoted one with its closing quote), and a row has at
  least one cell.
\<close>

lemma line_ok_append: "line_ok s \<Longrightarrow> line_ok (p @ s)"
  by (simp add: line_ok_def)

lemma line_ok_snoc: "c \<noteq> CHR ''\<newline>'' \<Longrightarrow> line_ok (p @ [c])"
  by (simp add: line_ok_def)

lemma join_last:
  "ls \<noteq> [] \<Longrightarrow> line_ok (last ls) \<Longrightarrow> line_ok (join sep ls)"
  by (induction sep ls rule: join.induct) (auto simp: line_ok_def)

lemma digit_char_mem: "digit_char d \<in> set ''0123456789abcdef''"
  unfolding digit_char_def by (rule nth_mem) simp

lemma digit_char_not_newline: "digit_char d \<noteq> CHR ''\<newline>''"
  using digit_char_mem[of d] by auto

lemma str_nat_ok: "line_ok (str_nat n)"
  by (subst str_nat.simps) (simp add: line_ok_def digit_char_not_newline)

lemma str_int_ok: "line_ok (str_int i)"
  using str_nat_ok by (simp add: str_int_def line_ok_def)

lemma quote_str_ok: "line_ok (quote_str s)"
  by (simp add: quote_str_def line_ok_def)

lemma float_repr_ok: "float_repr r \<Longrightarrow> line_ok r"
proof -
  assume a: "float_repr r"
  then have "r \<noteq> []" by (simp add: float_repr_def)
  moreover from this a have "last r \<in> set ''0123456789.e+-infa''"
    by (auto simp: float_repr_def list_all_iff simp del: set_simps)
  then have "last r \<noteq> CHR ''\<newline>''" by auto
  ultimately show ?thesis by (simp add: line_ok_def)
qed

lemma isspace_newline: "isspace CHR ''\<newline>''"
  by (simp add: isspace_def)

lemma format_value_ok: "wf_json v \<Longrightarrow> line_ok (format_value v)"
proof (cases v)
  case (JStr s)
  show ?thesis
  proof (cases "needs_quote (JStr s)")
    case True
    then show ?thesis by (simp add: JStr quote_str_ok del: needs_quote.simps)
  next
    case False
    then have "s \<noteq> []" "\<not> isspace (last s)" by (auto split: if_splits)
    with isspace_newline have "line_ok s" by (auto simp: line_ok_def)
    with False show ?thesis by (simp add: JStr del: needs_quote.simps)
  qed
qed (simp_all add: str_int_ok quote_str_ok float_repr_ok, simp_all add: line_ok_def)

lemma wf_elems_iff: "wf_elems xs \<longleftrightarrow> (\<forall>x\<in>set xs. wf_json x)"
  by (induction xs) auto

lemma wf_items_iff: "wf_items kvs \<longleftrightarrow> (\<forall>(k, v)\<in>set kvs. wf_json v)"
  by (induction kvs) auto

lemma no_empty_elems_iff: "no_empty_elems xs \<longleftrightarrow> (\<forall>x\<in>set xs. x \<noteq> JDict [] \<and> no_empty_child x)"
  by (induction xs) auto

lemma table_row_ok:
  assumes "wf_json el" "el \<noteq> JDict []" "is_dict el"
  shows "line_ok (pad @ join '','' (map format_value (cells el)))"
proof -
  from assms obtain kvs where el: "el = JDict kvs" "kvs \<noteq> []" by (cases el) auto
  with assms(1) have "\<forall>c\<in>set (map snd kvs). wf_json c"
    by (auto simp: wf_items_iff)
  with el(2) have "line_ok (last (map format_value (map snd kvs)))"
    by (simp add: last_map format_value_ok)
  with el(2) have "line_ok (join '','' (map format_value (map snd kvs)))"
    by (intro join_last) simp_all
  then show ?thesis by (simp add: el line_ok_append)
qed

lemma array_lines_ok:
  assumes wf: "wf_elems lst" and ne: "no_empty_elems lst"
    and mixed: "\<And>ls. mixed_loop lst indent = Inr ls \<Longrightarrow> list_all line_ok ls"
    and res: "array_lines pad k lst indent = Inr ls"
  shows "list_all line_ok ls \<and> ls \<noteq> []"
proof (cases lst rule: array_lines_cases)
  case Empty
  with res show ?thesis by (auto simp: array_lines_empty line_ok_def)
next
  case (Tabular cols)
  then obtain kvs where "hd lst = JDict kvs" "map fst kvs = cols" "hd lst \<in> set lst"
    by (cases lst) (auto simp: tabular_explicit)
  with wf have d: "distinct cols" by (auto simp: wf_elems_iff)
  have "\<forall>el\<in>set lst. line_ok (pad @ join '','' (map format_value (cells el)))"
    using wf ne Tabular by (auto intro!: table_row_ok simp: wf_elems_iff no_empty_elems_iff tabular_explicit)
  moreover have "line_ok (pad @ k @ ''['' @ str_nat (length lst) @ '']{'' @ join '','' cols @ ''}:'')"
    by (simp add: line_ok_def)
  ultimately show ?thesis
    using res Tabular d by (auto simp: array_lines_tabular table_lines_distinct list_all_iff)
next
  case Inline
  from wf have "\<forall>x\<in>set lst. line_ok (format_value x)"
    by (simp add: wf_elems_iff format_value_ok)
  with Inline(1) have "line_ok (join '','' (map format_value lst))"
    by (intro join_last) (simp_all add: last_map)
  then have "line_ok (inline_line pad k lst)"
    by (simp add: inline_line_def line_ok_def)
  with res Inline show ?thesis by (auto simp: array_lines_inline)
next
  case Mixed
  have "line_ok (pad @ k @ ''['' @ str_nat (length lst) @ '']:'')"
    by (simp add: line_ok_def)
  with res Mixed mixed show ?thesis
    by (auto simp: array_lines_mixed split: sum.splits)
qed

lemma lines_ok_aux:
  "\<forall>name indent s. wf_json v \<longrightarrow> no_empty_child v \<longrightarrow> v \<noteq> JDict [] \<longrightarrow>
      json_to_toon v name indent = Inr s \<longrightarrow> line_ok s"
  "\<forall>indent ls. wf_items items \<longrightarrow> no_empty_items items \<longrightarrow>
      dict_loop items indent = Inr ls \<longrightarrow> list_all line_ok ls \<and> (items \<noteq> [] \<longrightarrow> ls \<noteq> [])"
  "\<forall>indent ls. wf_elems lst \<longrightarrow> no_empty_elems lst \<longrightarrow>
      mixed_loop lst indent = Inr ls \<longrightarrow> list_all line_ok ls"
proof (induction v and items and lst rule: json_induct)
  case (Prim v)
  show ?case
  proof (intro allI impI)
    fix name indent s
    assume "wf_json v" and s: "json_to_toon v name indent = Inr s"
    then have "line_ok (format_value v)" by (simp add: format_value_ok)
    then have "line_ok ((spaces indent
        @ (if name_part_of name \<noteq> [] then name_part_of name @ '': '' else [])) @ format_value v)"
      by (rule line_ok_append)
    with s Prim show "line_ok s" by (simp add: json_to_toon_prim)
  qed
next
  case (Dict items)
  show ?case
  proof (intro allI impI)
    fix name indent s
    assume a: "wf_json (JDict items)" "no_empty_child (JDict items)" "JDict items \<noteq> JDict []"
      "json_to_toon (JDict items) name indent = Inr s"
    then obtain ls where ls: "dict_loop items indent = Inr ls" "s = join ''\<newline>'' ls"
      by (auto simp: json_to_toon.simps(1) split: sum.splits)
    with Dict a have "list_all line_ok ls" "ls \<noteq> []" by auto
    then have "line_ok (last ls)" by (simp add: list_all_iff)
    with \<open>ls \<noteq> []\<close> show "line_ok s" unfolding ls(2) by (rule join_last)
  qed
next
  case (List lst)
  show ?case
  proof (intro allI impI)
    fix name indent s
    assume a: "wf_json (JList lst)" "no_empty_child (JList lst)"
      "json_to_toon (JList lst) name indent = Inr s"
    then obtain ls where ls: "array_lines (spaces indent) (name_part_of name) lst indent = Inr ls"
      "s = join ''\<newline>'' ls"
      by (auto simp: json_to_toon_JList split: sum.splits)
    from a List have "list_all line_ok ls \<and> ls \<noteq> []"
      by (intro array_lines_ok[OF _ _ _ ls(1)]) auto
    then have "line_ok (last ls)" "ls \<noteq> []" by (simp_all add: list_all_iff)
    then show "line_ok s" unfolding ls(2) by (intro join_last)
  qed
next
  case (ConsDict k d rest)
  show ?case
  proof (intro allI impI)
    fix indent ls
    assume a: "wf_items ((k, JDict d) # rest)" "no_empty_items ((k, JDict d) # rest)"
      "dict_loop ((k, JDict d) # rest) indent = Inr ls"
    then obtain block ls' where b: "json_to_toon (JDict d) None (indent + 2) = Inr block"
      "dict_loop rest indent = Inr ls'" "ls = (spaces indent @ k @ '':'') # block # ls'"
      by (auto simp: dict_loop_JDict split: sum.splits)
    from a b ConsDict have "line_ok block" "list_all line_ok ls'" by auto
    moreover have "line_ok (spaces indent @ k @ '':'')" by (simp add: line_ok_def)
    ultimately show "list_all line_ok ls \<and> ((k, JDict d) # rest \<noteq> [] \<longrightarrow> ls \<noteq> [])"
      by (simp add: b(3))
  qed
next
  case (ConsList k lst rest)
  show ?case
  proof (intro allI impI)
    fix indent ls
    assume a: "wf_items ((k, JList lst) # rest)" "no_empty_items ((k, JList lst) # rest)"
      "dict_loop ((k, JList lst) # rest) indent = Inr ls"
    then obtain these ls' where b: "array_lines (spaces indent) k lst indent = Inr these"
      "dict_loop rest indent = Inr ls'" "ls = these @ ls'"
      by (auto simp: dict_loop_JList split: sum.splits)
    from a ConsList have "list_all line_ok these \<and> these \<noteq> []"
      by (intro array_lines_ok[OF _ _ _ b(1)]) auto
    moreover from a b ConsList have "list_all line_ok ls'" by auto
    ultimately show "list_all line_ok ls \<and> ((k, JList lst) # rest \<noteq> [] \<longrightarrow> ls \<noteq> [])"
      by (simp add: b(3))
  qed
next
  case (ConsPrim k v rest)
  show ?case
  proof (intro allI impI)
    fix indent ls
    assume a: "wf_items ((k, v) # rest)" "no_empty_items ((k, v) # rest)"
      "dict_loop ((k, v) # rest) indent = Inr ls"
    with ConsPrim(1) obtain ls' where b: "dict_loop rest indent = Inr ls'"
      "ls = (spaces indent @ k @ '': '' @ format_value v) # ls'"
      by (auto simp: dict_loop_prim split: sum.splits)
    from a have "line_ok (format_value v)" by (simp add: format_value_ok)
    then have "line_ok ((spaces indent @ k @ '': '') @ format_value v)"
      by (rule line_ok_append)
    then have "line_ok (spaces indent @ k @ '': '' @ format_value v)" by simp
    moreover from a b ConsPrim have "list_all line_ok ls'" by auto
    ultimately show "list_all line_ok ls \<and> ((k, v) # rest \<noteq> [] \<longrightarrow> ls \<noteq> [])"
      by (simp add: b(2))
  qed
next
  case (ECons el els)
  show ?case
  proof (intro allI impI)
    fix indent ls
    assume a: "wf_elems (el # els)" "no_empty_elems (el # els)"
      "mixed_loop (el # els) indent = Inr ls"
    then obtain line ls' where b: "mixed_loop els indent = Inr ls'" "ls = line # ls'"
      "(if is_primitive el then Inr (spaces (indent + 2) @ format_value el)
        else json_to_toon el None (indent + 2)) = Inr line"
      by (auto split: sum.splits)
    have "line_ok line"
    proof (cases "is_primitive el")
      case True
      from a have "line_ok (format_value el)" by (simp add: format_value_ok)
      then have "line_ok (spaces (indent + 2) @ format_value el)" by (rule line_ok_append)
      with True b(3) show ?thesis by simp
    next
      case False
      with a b(3) ECons(1) show ?thesis by auto
    qed
    moreover from a b ECons have "list_all line_ok ls'" by auto
    ultimately show "list_all line_ok ls" by (simp add: b(2))
  qed
qed simp_all

text \<open>
  Claim C5, as amended. The text the encoder returns for an object is the emitted lines
  joined by line feeds, nothing added after the last line. For a well-formed value in
  which no empty object is the value of a key or an element of an array, that text
  does not end with a line feed.
\<close>

theorem no_trailing_newline:
  "(\<exists>ls. dict_loop items indent = Inr ls
        \<and> json_to_toon (JDict items) name indent = Inr (join ''\<newline>'' ls))
   \<and> (wf_json v \<and> no_empty_child v \<longrightarrow>
        (\<exists>s. json_to_toon v name indent = Inr s \<and> \<not> ends_with_newline s))"
proof (intro conjI impI)
  obtain ls where "dict_loop items indent = Inr ls" using dict_loop_total by blast
  then show "\<exists>ls. dict_loop items indent = Inr ls
        \<and> json_to_toon (JDict items) name indent = Inr (join ''\<newline>'' ls)"
    by (simp add: json_to_toon.simps(1))
next
  assume a: "wf_json v \<and> no_empty_child v"
  obtain s where s: "json_to_toon v name indent = Inr s" using json_to_toon_total by blast
  have "\<not> ends_with_newline s"
  proof (cases "v = JDict []")
    case True
    with s show ?thesis by (simp add: json_to_toon.simps(1) ends_with_newline_def)
  next
    case False
    with a s lines_ok_aux(1) have "line_ok s" by blast
    then show ?thesis by (simp add: line_ok_def ends_with_newline_def)
  qed
  with s show "\<exists>s. json_to_toon v name indent = Inr s \<and> \<not> ends_with_newline s" by blast
qed

text \<open>The example document is well formed and holds no empty object.\<close>

theorem no_trailing_newline_witness:
  "wf_json example_value \<and> no_empty_child example_value
   \<and> (\<exists>s. json_to_toon example_value None 0 = Inr s \<and> \<not> ends_with_newline s)
   \<and> (\<exists>ls. dict_loop example_items 0 = Inr ls
            \<and> json_to_toon (JDict example_items) None 0 = Inr (join ''\<newline>'' ls))"
proof -
  have h: "wf_json example_value \<and> no_empty_child example_value" by code_simp
  from no_trailing_newline [where v = example_value and name = None and indent = 0
      and items = example_items] h
  show ?thesis by blast
qed

text \<open>
  Claim C5 as stated fails where it names its own hard case: in \<^verbatim>\<open>{"a": {}}\<close> the empty
  object is encoded as the empty string and appended as a line after \<^verbatim>\<open>a:\<close>, so the
  joined text ends with a line feed.
\<close>

theorem trailing_newline_counterexample:
  "wf_json (JDict [(''a'', JDict [])])
   \<and> json_to_toon (JDict [(''a'', JDict [])]) None 0 = Inr ''a:\<newline>''
   \<and> ends_with_newline ''a:\<newline>''"
  by code_simp

section \<open>The entry point\<close>


lemma convert_JStr:
  "convert_json_to_toon loads (JStr text) =
     (case loads text of Inl e \<Rightarrow> Inl e | Inr parsed \<Rightarrow> json_to_toon parsed None 0)"
  by (simp add: convert_json_to_toon_def)






text \<open>
  Claim C10. A string argument is always handed to the parser: the result is the
  parser's exception, or the encoding of what the parser returned, never the encoding
  of the argument as a string value. The encoder would render the string \<^verbatim>\<open>hello\<close> as
  \<^verbatim>\<open>hello\<close>; the wrapper, with a parser that rejects the text \<^verbatim>\<open>hello\<close>, raises the
  parser's error instead.
\<close>

theorem string_always_parsed:
  "convert_json_to_toon loads (JStr s) =
     (case loads s of Inl e \<Rightarrow> Inl e | Inr parsed \<Rightarrow> json_to_toon parsed None 0)
   \<and> (loads s = Inl e \<longrightarrow> convert_json_to_toon loads (JStr s) = Inl e)
   \<and> json_to_toon (JStr ''hello'') None 0 = Inr ''hello''
   \<and> (loads ''hello'' = Inl JSONDecodeError \<longrightarrow>
        convert_json_to_toon loads (JStr ''hello'') = Inl JSONDecodeError)"
  by (simp add: convert_JStr json_to_toon_prim name_part_of_def spaces_def isspace_def)

text \<open>The parser table rejects the bare word.\<close>

theorem string_always_parsed_witness:
  "loads_table ''hello'' = Inl JSONDecodeError
   \<and> convert_json_to_toon loads_table (JStr ''hello'') = Inl JSONDecodeError
   \<and> json_to_toon (JStr ''hello'') None 0 = Inr ''hello''"
proof -
  have h: "loads_table ''hello'' = Inl JSONDecodeError" by code_simp
  from string_always_parsed [where loads = loads_table and s = "''hello''"
      and e = JSONDecodeError] h
  show ?thesis by blast
qed

end
